theory Spec2Isabelle
  imports Main
begin

section \<open>Python values\<close>

text \<open>
  The exception classes that \<^verbatim>\<open>scrape.py\<close> raises or catches. \<open>ClientError\<close> stands for
  \<^verbatim>\<open>aiohttp.client_exceptions.ClientError\<close> and its subclasses, \<open>TimeoutError\<close> for
  \<^verbatim>\<open>asyncio.TimeoutError\<close>. A computation that may raise returns \<open>exn + 'a\<close>, with
  \<open>Inl\<close> for the exception.
\<close>

datatype exn = ClientError | TimeoutError | OSError | IndexError | TypeError | ValueError

type_synonym bytes = "char list"

text \<open>\<^verbatim>\<open>xs.index(y)\<close>: the first position of \<open>y\<close>, or ValueError.\<close>

fun list_index :: "'a list \<Rightarrow> 'a \<Rightarrow> exn + nat" where
  "list_index [] y = Inl ValueError"
| "list_index (x # xs) y = (if x = y then Inr 0 else map_sum id Suc (list_index xs y))"

text \<open>
  \<^verbatim>\<open>xs[i] = v\<close>: a negative index counts from the end, an index outside
  \<open>-len(xs) .. len(xs) - 1\<close> raises IndexError.
\<close>

definition list_setitem :: "'a list \<Rightarrow> int \<Rightarrow> 'a \<Rightarrow> exn + 'a list" where
  "list_setitem xs i v =
     (if 0 \<le> i \<and> i < int (length xs) then Inr (xs[nat i := v])
      else if i < 0 \<and> - int (length xs) \<le> i then Inr (xs[nat (int (length xs) + i) := v])
      else Inl IndexError)"

text \<open>\<^verbatim>\<open>s.startswith(p)\<close> and \<^verbatim>\<open>s.endswith(p)\<close>.\<close>

definition startswith :: "string \<Rightarrow> string \<Rightarrow> bool" where
  "startswith s p = (take (length p) s = p)"

definition endswith :: "string \<Rightarrow> string \<Rightarrow> bool" where
  "endswith s p = (length p \<le> length s \<and> drop (length s - length p) s = p)"

text \<open>\<^verbatim>\<open>os.path.basename(p)\<close>: what follows the last \<open>/\<close> of \<open>p\<close>.\<close>

definition basename :: "string \<Rightarrow> string" where
  "basename p = rev (takeWhile (\<lambda>c. c \<noteq> CHR ''/'') (rev p))"

text \<open>
  \<^verbatim>\<open>int(s)\<close> on an ASCII string: surrounding whitespace is stripped, a sign may lead,
  and the rest is decimal digits, where single underscores may separate digits. Anything
  else raises ValueError.
\<close>

definition is_space :: "char \<Rightarrow> bool" where
  "is_space c = (c \<in> set [CHR '' '', CHR 0x09, CHR 0x0A, CHR 0x0B, CHR 0x0C, CHR 0x0D])"

definition strip :: "string \<Rightarrow> string" where
  "strip s = rev (dropWhile is_space (rev (dropWhile is_space s)))"

definition is_digit :: "char \<Rightarrow> bool" where
  "is_digit c = (48 \<le> (of_char c :: nat) \<and> (of_char c :: nat) \<le> 57)"

definition digit_val :: "char \<Rightarrow> nat" where
  "digit_val c = of_char c - 48"

fun parse_digits :: "bool \<Rightarrow> nat \<Rightarrow> string \<Rightarrow> nat option" where
  "parse_digits d acc [] = (if d then Some acc else None)"
| "parse_digits d acc (c # cs) =
     (if is_digit c then parse_digits True (10 * acc + digit_val c) cs
      else if c = CHR ''_'' \<and> d \<and> cs \<noteq> [] \<and> is_digit (hd cs) then parse_digits False acc cs
      else None)"

definition py_int :: "string \<Rightarrow> exn + int" where
  "py_int s =
     (case strip s of
        [] \<Rightarrow> Inl ValueError
      | c # cs \<Rightarrow>
          if c = CHR ''-'' then
            (case parse_digits False 0 cs of None \<Rightarrow> Inl ValueError | Some n \<Rightarrow> Inr (- int n))
          else if c = CHR ''+'' then
            (case parse_digits False 0 cs of None \<Rightarrow> Inl ValueError | Some n \<Rightarrow> Inr (int n))
          else
            (case parse_digits False 0 (c # cs) of None \<Rightarrow> Inl ValueError | Some n \<Rightarrow> Inr (int n)))"

section \<open>The progress bar library\<close>

text \<open>
  \<^verbatim>\<open>progressbar.ProgressBar\<close> is a third-party class. Its state is kept as far as the
  scraper reads or writes it: the widget list, the output sink \<open>fd\<close>, \<open>maxval\<close> and
  \<open>currval\<close>. What it draws, and when, is not modelled.
\<close>

datatype widget =
    Text string | SimpleProgress | Percentage | AnimatedMarker | Bar | FileTransferSpeed
  | Bold | Yellow

datatype sink = Stderr | Writer "int \<times> int" | DevNull

record progress_bar =
  widgets :: "widget list"
  fd :: sink
  maxval :: "int option"
  currval :: int

definition ProgressBar :: "widget list \<Rightarrow> int option \<Rightarrow> progress_bar" where
  "ProgressBar ws mv = \<lparr>widgets = ws, fd = Stderr, maxval = mv, currval = 0\<rparr>"

text \<open>
  \<^verbatim>\<open>update(value)\<close> stores the value; the library rejects a value outside
  \<open>0 .. maxval\<close> with ValueError. \<^verbatim>\<open>start()\<close> replaces an absent \<open>maxval\<close> by the
  library default 100, rejects a negative one, and calls \<^verbatim>\<open>update(0)\<close>;
  \<^verbatim>\<open>finish()\<close> is \<^verbatim>\<open>update(maxval)\<close>.
\<close>

definition pb_update :: "progress_bar \<Rightarrow> int \<Rightarrow> exn + progress_bar" where
  "pb_update pb v =
     (case maxval pb of
        None \<Rightarrow> Inr (pb\<lparr>currval := v\<rparr>)
      | Some m \<Rightarrow> if 0 \<le> v \<and> v \<le> m then Inr (pb\<lparr>currval := v\<rparr>) else Inl ValueError)"

definition pb_start :: "progress_bar \<Rightarrow> exn + progress_bar" where
  "pb_start pb =
     (let m = (case maxval pb of None \<Rightarrow> 100 | Some m \<Rightarrow> m)
      in if m < 0 then Inl ValueError else pb_update (pb\<lparr>maxval := Some m\<rparr>) 0)"

definition pb_finish :: "progress_bar \<Rightarrow> exn + progress_bar" where
  "pb_finish pb = (case maxval pb of None \<Rightarrow> Inr pb | Some m \<Rightarrow> pb_update pb m)"

definition SUB_BAR_WIDGETS :: "widget list" where
  "SUB_BAR_WIDGETS = [Text '': '', Text '' ('', Percentage, Text '') '', Bar, FileTransferSpeed]"

definition MAIN_BAR_WIDGETS :: "widget list" where
  "MAIN_BAR_WIDGETS =
     [Text ''Tasks complete: '', SimpleProgress, Text '' ('', Percentage, Text '') '',
      AnimatedMarker]"

section \<open>ProgressBarManager\<close>

text \<open>
  The object has the anchor of the main bar, the anchor of the sub bars and \<open>lines\<close>,
  the slot pool: \<open>None\<close> is a free slot, \<open>Some pb\<close> a slot holding a progress bar.
  The pool only ever tests a slot against \<open>None\<close>.
\<close>

record manager =
  main_coords :: "int \<times> int"
  sub_coords :: "int \<times> int"
  lines :: "progress_bar option list"

definition SUB_LINE_OFFSET :: int where "SUB_LINE_OFFSET = 1"
definition SUB_INDENT :: int where "SUB_INDENT = 4"
definition DEFAULT_LINE_MAX :: nat where "DEFAULT_LINE_MAX = 10"

text \<open>\<^verbatim>\<open>__init__\<close>, called with an anchor; \<open>n = None\<close> is the default line count.\<close>

definition new_manager :: "int \<times> int \<Rightarrow> nat option \<Rightarrow> manager" where
  "new_manager mc n =
     \<lparr>main_coords = mc,
      sub_coords = (fst mc + SUB_INDENT, snd mc + SUB_LINE_OFFSET),
      lines = replicate (case n of None \<Rightarrow> DEFAULT_LINE_MAX | Some k \<Rightarrow> if k = 0 then DEFAULT_LINE_MAX else k) None\<rparr>"

definition get_sub_line :: "manager \<Rightarrow> nat \<Rightarrow> int \<times> int" where
  "get_sub_line m idx = (fst (sub_coords m), snd (sub_coords m) + int idx)"

text \<open>\<^verbatim>\<open>_alloc_slot\<close>: the index of the first \<open>None\<close> when there is one, else \<open>None\<close>.\<close>

definition alloc_slot :: "manager \<Rightarrow> exn + nat option" where
  "alloc_slot m =
     (if None \<in> set (lines m) then map_sum id Some (list_index (lines m) None) else Inr None)"

text \<open>\<^verbatim>\<open>_free_slot\<close>: the single assignment \<^verbatim>\<open>self._lines[slot] = None\<close>.\<close>

definition free_slot :: "manager \<Rightarrow> int \<Rightarrow> exn + manager" where
  "free_slot m slot = map_sum id (\<lambda>l. m\<lparr>lines := l\<rparr>) (list_setitem (lines m) slot None)"

section \<open>The world the coroutines run in\<close>

text \<open>
  Every call on \<^verbatim>\<open>LOGGER\<close> is recorded, whatever the log level: one constructor for
  each call site of the source.
\<close>

datatype log_entry =
    Debug_downloading string string
  | Debug_got_filename "string option" string
  | Error_could_not_download string exn
  | Error_could_not_write exn
  | Debug_fetching string
  | Debug_got_response nat
  | Error_could_not_fetch exn
  | Info_extracting
  | Info_got_zip_links nat

text \<open>
  An aiohttp response: the status, the headers (looked up by their canonical names, as
  the source spells them), what \<^verbatim>\<open>resp.text()\<close> gives and what
  \<^verbatim>\<open>resp.content.iter_chunks()\<close> yields, item by item; an item is a chunk of bytes or
  an exception raised in place of the next chunk.
\<close>

datatype stream_item = Chunk bytes | Raise exn

record response =
  status :: nat
  headers :: "string \<rightharpoonup> string"
  body_text :: "exn + string"
  chunks :: "stream_item list"

text \<open>
  What lies outside the program: the network (\<^verbatim>\<open>session.get(url)\<close> raises or answers),
  the markup parser (the \<open>href\<close> values of \<^verbatim>\<open>soup.findAll("a", href=True)\<close>, in document
  order), \<^verbatim>\<open>cgi.parse_header\<close>, and the file system (\<^verbatim>\<open>aiofiles.open\<close> may raise
  OSError; a write raises OSError once the file would outgrow \<open>disk_space\<close>).
\<close>

record env =
  http_get :: "string \<Rightarrow> exn + response"
  find_all_href :: "string \<Rightarrow> string list"
  parse_header :: "string \<Rightarrow> string \<times> (string \<rightharpoonup> string)"
  open_fails :: "string \<times> string \<Rightarrow> bool"
  disk_space :: "nat option"

text \<open>
  The mutable state: the global \<^verbatim>\<open>PROGRESS_MANAGER\<close>, the log, and the files, keyed by
  the two arguments of \<^verbatim>\<open>pathlib.Path(output_folder, filename)\<close>.
\<close>

record world =
  progress_manager :: manager
  logged :: "log_entry list"
  files :: "string \<times> string \<rightharpoonup> bytes"

definition logm :: "log_entry \<Rightarrow> world \<Rightarrow> world" where
  "logm e w = w\<lparr>logged := logged w @ [e]\<rparr>"

text \<open>Opening with mode \<^verbatim>\<open>"wb"\<close> creates or truncates the file.\<close>

definition file_open :: "env \<Rightarrow> string \<times> string \<Rightarrow> world \<Rightarrow> exn + world" where
  "file_open ev path w =
     (if open_fails ev path then Inl OSError else Inr (w\<lparr>files := (files w)(path \<mapsto> [])\<rparr>))"

definition file_write :: "env \<Rightarrow> string \<times> string \<Rightarrow> bytes \<Rightarrow> world \<Rightarrow> exn + world" where
  "file_write ev path c w =
     (let old = (case files w path of None \<Rightarrow> [] | Some b \<Rightarrow> b)
      in case disk_space ev of
           None \<Rightarrow> Inr (w\<lparr>files := (files w)(path \<mapsto> old @ c)\<rparr>)
         | Some k \<Rightarrow>
             if k < length old + length c then Inl OSError
             else Inr (w\<lparr>files := (files w)(path \<mapsto> old @ c)\<rparr>))"

section \<open>The context managers of ProgressBarManager\<close>

fun show_nat :: "nat \<Rightarrow> string" where
  "show_nat n =
     (if n < 10 then [char_of (48 + n)] else show_nat (n div 10) @ [char_of (48 + n mod 10)])"

text \<open>
  \<^verbatim>\<open>install_sub_bar\<close> is a generator under \<^verbatim>\<open>@contextmanager\<close>. \<open>sub_bar_enter\<close> is
  its code up to the \<^verbatim>\<open>yield\<close>, \<open>sub_bar_exit\<close> its code after the \<^verbatim>\<open>yield\<close>.
  The generator has no \<^verbatim>\<open>try\<close> around the \<^verbatim>\<open>yield\<close>: when the body of the
  \<^verbatim>\<open>with\<close> statement raises, the exception is thrown into the generator at the
  \<^verbatim>\<open>yield\<close> and leaves it at once, so the code after the \<^verbatim>\<open>yield\<close> runs only when
  the body returns.
\<close>

definition sub_bar_enter ::
  "progress_bar \<Rightarrow> world \<Rightarrow> (exn + nat option) \<times> progress_bar \<times> world" where
  "sub_bar_enter pb w =
     (let m = progress_manager w in
      case alloc_slot m of
        Inl e \<Rightarrow> (Inl e, pb, w)
      | Inr None \<Rightarrow>
          (let pb2 = pb\<lparr>fd := DevNull\<rparr>; pb3 = pb2\<lparr>widgets := Yellow # widgets pb2\<rparr>
           in case pb_start pb3 of
                Inl e \<Rightarrow> (Inl e, pb3, w)
              | Inr pb4 \<Rightarrow> (Inr None, pb4, w))
      | Inr (Some slot) \<Rightarrow>
          (case list_setitem (lines m) (int slot) (Some pb) of
             Inl e \<Rightarrow> (Inl e, pb, w)
           | Inr l \<Rightarrow>
               (let w1 = w\<lparr>progress_manager := m\<lparr>lines := l\<rparr>\<rparr>;
                    pb1 = pb\<lparr>widgets := Text (show_nat slot @ '': '') # widgets pb\<rparr>;
                    pb2 = pb1\<lparr>fd := Writer (get_sub_line m slot)\<rparr>;
                    pb3 = pb2\<lparr>widgets := Yellow # widgets pb2\<rparr>
                in case pb_start pb3 of
                     Inl e \<Rightarrow> (Inl e, pb3, w1)
                   | Inr pb4 \<Rightarrow> (Inr (Some slot), pb4, w1))))"

definition sub_bar_exit ::
  "nat option \<Rightarrow> progress_bar \<Rightarrow> world \<Rightarrow> (exn + unit) \<times> progress_bar \<times> world" where
  "sub_bar_exit slot pb w =
     (case pb_finish pb of
        Inl e \<Rightarrow> (Inl e, pb, w)
      | Inr pb1 \<Rightarrow>
          (case slot of
             None \<Rightarrow> (Inr (), pb1, w)
           | Some s \<Rightarrow>
               (case free_slot (progress_manager w) (int s) of
                  Inl e \<Rightarrow> (Inl e, pb1, w)
                | Inr m \<Rightarrow> (Inr (), pb1, w\<lparr>progress_manager := m\<rparr>))))"

definition install_sub_bar ::
  "progress_bar \<Rightarrow> (progress_bar \<Rightarrow> world \<Rightarrow> (exn + unit) \<times> progress_bar \<times> world) \<Rightarrow>
   world \<Rightarrow> (exn + unit) \<times> progress_bar \<times> world" where
  "install_sub_bar pb body w =
     (case sub_bar_enter pb w of
        (Inl e, pb1, w1) \<Rightarrow> (Inl e, pb1, w1)
      | (Inr slot, pb1, w1) \<Rightarrow>
          (case body pb1 w1 of
             (Inl e, pb2, w2) \<Rightarrow> (Inl e, pb2, w2)
           | (Inr u, pb2, w2) \<Rightarrow> sub_bar_exit slot pb2 w2))"

text \<open>\<^verbatim>\<open>install_main\<close>, the same shape without a slot.\<close>

definition install_main ::
  "progress_bar \<Rightarrow> (world \<Rightarrow> (exn + unit) \<times> world) \<Rightarrow> world \<Rightarrow> (exn + unit) \<times> world" where
  "install_main pb body w =
     (let pb1 = pb\<lparr>fd := Writer (main_coords (progress_manager w))\<rparr>;
          pb2 = pb1\<lparr>widgets := Bold # widgets pb1\<rparr>
      in case pb_start pb2 of
           Inl e \<Rightarrow> (Inl e, w)
         | Inr pb3 \<Rightarrow>
             (case body w of
                (Inl e, w1) \<Rightarrow> (Inl e, w1)
              | (Inr u, w1) \<Rightarrow>
                  (case pb_finish pb3 of Inl e \<Rightarrow> (Inl e, w1) | Inr pb4 \<Rightarrow> (Inr (), w1))))"

section \<open>Downloading a file\<close>

text \<open>
  The loop over \<^verbatim>\<open>resp.content.iter_chunks()\<close>. The progress bar is a mutable object
  of the task, so it is threaded through and returned with the world, also when the loop
  is left by an exception.
\<close>

fun iter_chunks ::
  "env \<Rightarrow> int option \<Rightarrow> string \<times> string \<Rightarrow> stream_item list \<Rightarrow> progress_bar \<Rightarrow> world \<Rightarrow>
   (exn + unit) \<times> progress_bar \<times> world" where
  "iter_chunks ev file_size path [] pb w = (Inr (), pb, w)"
| "iter_chunks ev file_size path (Raise e # rest) pb w = (Inl e, pb, w)"
| "iter_chunks ev file_size path (Chunk c # rest) pb w =
     (case (if file_size \<noteq> None \<and> file_size \<noteq> Some 0
            then pb_update pb (currval pb + int (length c)) else Inr pb) of
        Inl e \<Rightarrow> (Inl e, pb, w)
      | Inr pb1 \<Rightarrow>
          (case file_write ev path c w of
             Inl e \<Rightarrow> (Inl e, pb1, w)
           | Inr w1 \<Rightarrow> iter_chunks ev file_size path rest pb1 w1))"

text \<open>
  The body of the \<^verbatim>\<open>try\<close> statement. \<^verbatim>\<open>pathlib.Path(output_folder, filename)\<close>
  raises TypeError when \<open>filename\<close> is \<open>None\<close>.
\<close>

definition download_try :: "env \<Rightarrow> string \<Rightarrow> string \<Rightarrow> world \<Rightarrow> (exn + unit) \<times> world" where
  "download_try ev url output_folder w =
     (let w1 = logm (Debug_downloading url output_folder) w in
      case http_get ev url of
        Inl e \<Rightarrow> (Inl e, w1)
      | Inr resp \<Rightarrow>
          (let bname = basename url;
               (filename, w2) =
                  (case headers resp ''Content-Disposition'' of
                     None \<Rightarrow> (Some bname, w1)
                   | Some content_dispo \<Rightarrow>
                       if content_dispo = [] then (Some bname, w1)
                       else (let filename = snd (parse_header ev content_dispo) ''filename''
                             in (filename, logm (Debug_got_filename filename bname) w1)))
           in case (case headers resp ''Content-Length'' of
                      None \<Rightarrow> Inr None
                    | Some content_length \<Rightarrow>
                        if content_length = [] then Inr None
                        else map_sum id Some (py_int content_length)) of
                Inl e \<Rightarrow> (Inl e, w2)
              | Inr file_size \<Rightarrow>
                  (case filename of
                     None \<Rightarrow> (Inl TypeError, w2)
                   | Some fname \<Rightarrow>
                       (case file_open ev (output_folder, fname) w2 of
                          Inl e \<Rightarrow> (Inl e, w2)
                        | Inr w3 \<Rightarrow>
                            (let chunks_bar = ProgressBar (Text fname # SUB_BAR_WIDGETS) file_size
                             in case install_sub_bar chunks_bar
                                       (iter_chunks ev file_size (output_folder, fname) (chunks resp)) w3 of
                                  (r, pb, w4) \<Rightarrow> (r, w4))))))"

text \<open>The two \<^verbatim>\<open>except\<close> clauses; any other exception leaves the coroutine.\<close>

definition download_except :: "string \<Rightarrow> (exn + unit) \<times> world \<Rightarrow> (exn + unit) \<times> world" where
  "download_except url r =
     (case r of
        (Inr u, w) \<Rightarrow> (Inr u, w)
      | (Inl e, w) \<Rightarrow>
          if e = ClientError \<or> e = TimeoutError then (Inr (), logm (Error_could_not_download url e) w)
          else if e = OSError then (Inr (), logm (Error_could_not_write e) w)
          else (Inl e, w))"

text \<open>
  The coroutine under the decorator. The decorator's semaphore is the subject of the
  section on the concurrency limiter; the one task that \<open>scrape\<close> starts finds it free.
\<close>

definition download_file :: "env \<Rightarrow> string \<Rightarrow> string \<Rightarrow> world \<Rightarrow> (exn + unit) \<times> world" where
  "download_file ev url output_folder w = download_except url (download_try ev url output_folder w)"

section \<open>fetch and scrape\<close>

text \<open>
  \<^verbatim>\<open>resp.raise_for_status()\<close> is aiohttp's: it raises ClientResponseError, a
  ClientError, when the status is 400 or higher, and does nothing below 400.
\<close>

definition fetch :: "env \<Rightarrow> string \<Rightarrow> world \<Rightarrow> (exn + string) \<times> world" where
  "fetch ev url w =
     (let w1 = logm (Debug_fetching url) w in
      case http_get ev url of
        Inl e \<Rightarrow> (Inl e, w1)
      | Inr resp \<Rightarrow>
          (let w2 = logm (Debug_got_response (status resp)) w1
           in if 400 \<le> status resp then (Inl ClientError, w2) else (body_text resp, w2)))"

definition listing_url :: string where
  "listing_url = ''http://speedtest.tele2.net/''"

definition scrape :: "env \<Rightarrow> world \<Rightarrow> (exn + unit) \<times> world" where
  "scrape ev w =
     (let url = listing_url in
      case fetch ev url w of
        (Inl e, w1) \<Rightarrow>
          if e = ClientError \<or> e = TimeoutError then (Inr (), logm (Error_could_not_fetch e) w1)
          else (Inl e, w1)
      | (Inr resp_text, w1) \<Rightarrow>
          (let w2 = logm Info_extracting w1;
               all_files = filter (\<lambda>href. endswith href ''.zip'') (find_all_href ev resp_text);
               w3 = logm (Info_got_zip_links (length all_files)) w2;
               all_urls = all_files
           in case filter (\<lambda>href. startswith href ''100MB'') all_urls of
                [] \<Rightarrow> (Inl IndexError, w3)
              | target_url # others \<Rightarrow>
                  (let coros_bar = ProgressBar MAIN_BAR_WIDGETS (Some 1)
                   in install_main coros_bar (download_file ev (url @ target_url) ''/tmp/'') w3)))"

text \<open>The download tasks that were started: the URLs \<open>download_file\<close> was entered with.\<close>

fun downloads_started :: "log_entry list \<Rightarrow> string list" where
  "downloads_started [] = []"
| "downloads_started (Debug_downloading url folder # es) = url # downloads_started es"
| "downloads_started (e # es) = downloads_started es"

section \<open>The concurrency limiter\<close>

text \<open>
  \<^verbatim>\<open>bound_concurrency(size)\<close> makes one \<^verbatim>\<open>asyncio.Semaphore(size)\<close> and wraps the
  coroutine in \<^verbatim>\<open>async with sem: return await func(...)\<close>. A call of the wrapper is
  \<open>Pending\<close> until it has acquired the semaphore, \<open>Streaming\<close> while \<open>func\<close> runs and
  \<open>Done r\<close> once \<open>func\<close> has returned or raised (\<open>r\<close> says which). The event loop
  resumes one call at a time. Acquiring takes a ticket when the counter is positive and
  leaves the call suspended otherwise; leaving the \<^verbatim>\<open>async with\<close> block gives the
  ticket back, whether \<open>func\<close> returned or raised.
\<close>

datatype phase = Pending | Streaming | Done "exn + unit"

record limiter =
  sem_value :: nat
  tasks :: "phase list"

definition bound_concurrency :: "nat \<Rightarrow> nat \<Rightarrow> limiter" where
  "bound_concurrency bound n = \<lparr>sem_value = bound, tasks = replicate n Pending\<rparr>"

definition wrapper :: "limiter \<Rightarrow> nat \<times> (exn + unit) \<Rightarrow> limiter" where
  "wrapper s event =
     (case event of (i, r) \<Rightarrow>
        if i < length (tasks s) then
          (case tasks s ! i of
             Pending \<Rightarrow>
               if 0 < sem_value s
               then s\<lparr>sem_value := sem_value s - 1, tasks := (tasks s)[i := Streaming]\<rparr>
               else s
           | Streaming \<Rightarrow> s\<lparr>sem_value := sem_value s + 1, tasks := (tasks s)[i := Done r]\<rparr>
           | Done r' \<Rightarrow> s)
        else s)"

definition run :: "limiter \<Rightarrow> (nat \<times> (exn + unit)) list \<Rightarrow> limiter" where
  "run s evs = foldl wrapper s evs"

definition streaming :: "limiter \<Rightarrow> nat" where
  "streaming s = length (filter (\<lambda>p. p = Streaming) (tasks s))"

declare show_nat.simps [simp del]

section \<open>main\<close>

text \<open>
  \<^verbatim>\<open>main\<close> builds the manager at \<open>(0, len(BANNER.splitlines()) + 1)\<close>, the banner
  having six lines, with the default number of slots, and runs \<open>scrape\<close>. The world at
  that point, for the files \<open>fs\<close> found on disk:
\<close>

definition main_world :: "(string \<times> string \<rightharpoonup> bytes) \<Rightarrow> world" where
  "main_world fs = \<lparr>progress_manager = new_manager (0, 7) None, logged = [], files = fs\<rparr>"

text \<open>
  For worked inputs: an environment in which every request is answered by \<open>resp\<close>, the
  parser finds the links \<open>hrefs\<close>, a header parses to the parameters \<open>params\<close>, and the
  file system never fails.
\<close>

definition answering :: "response \<Rightarrow> string list \<Rightarrow> (string \<rightharpoonup> string) \<Rightarrow> env" where
  "answering resp hrefs params =
     \<lparr>http_get = (\<lambda>u. Inr resp), find_all_href = (\<lambda>t. hrefs),
      parse_header = (\<lambda>h. (h, params)), open_fails = (\<lambda>p. False), disk_space = None\<rparr>"


section \<open>The slot pool\<close>

lemma list_index_first:
  "y \<in> set xs \<Longrightarrow>
   \<exists>i. list_index xs y = Inr i \<and> i < length xs \<and> xs ! i = y \<and> (\<forall>j<i. xs ! j \<noteq> y)"
proof (induction xs)
  case Nil
  then show ?case by simp
next
  case (Cons x xs)
  show ?case
  proof (cases "x = y")
    case True
    then show ?thesis by simp
  next
    case False
    with Cons.prems have "y \<in> set xs" by simp
    from Cons.IH [OF this] obtain i where
      i: "list_index xs y = Inr i" "i < length xs" "xs ! i = y" "\<forall>j<i. xs ! j \<noteq> y"
      by blast
    have "\<forall>j<Suc i. (x # xs) ! j \<noteq> y"
      using False i(4) by (auto simp: less_Suc_eq_0_disj)
    with False i show ?thesis by simp
  qed
qed

lemma alloc_slot_Some_iff:
  "alloc_slot m = Inr (Some i) \<longleftrightarrow>
   i < length (lines m) \<and> lines m ! i = None \<and> (\<forall>j<i. lines m ! j \<noteq> None)"
proof
  assume a: "alloc_slot m = Inr (Some i)"
  then have mem: "None \<in> set (lines m)"
    by (auto simp: alloc_slot_def split: if_splits)
  from list_index_first [OF mem] obtain k where
    k: "list_index (lines m) None = Inr k" "k < length (lines m)" "lines m ! k = None"
       "\<forall>j<k. lines m ! j \<noteq> None"
    by blast
  with a mem have "k = i" by (simp add: alloc_slot_def)
  with k show "i < length (lines m) \<and> lines m ! i = None \<and> (\<forall>j<i. lines m ! j \<noteq> None)"
    by simp
next
  assume r: "i < length (lines m) \<and> lines m ! i = None \<and> (\<forall>j<i. lines m ! j \<noteq> None)"
  then have mem: "None \<in> set (lines m)"
    by (metis nth_mem)
  from list_index_first [OF mem] obtain k where
    k: "list_index (lines m) None = Inr k" "k < length (lines m)" "lines m ! k = None"
       "\<forall>j<k. lines m ! j \<noteq> None"
    by blast
  with r have "k = i" by (metis linorder_neqE_nat)
  with k mem show "alloc_slot m = Inr (Some i)" by (simp add: alloc_slot_def)
qed

lemma alloc_slot_None_iff:
  "alloc_slot m = Inr None \<longleftrightarrow> (\<forall>j<length (lines m). lines m ! j \<noteq> None)"
proof (cases "None \<in> set (lines m)")
  case True
  from list_index_first [OF True] obtain k where
    k: "list_index (lines m) None = Inr k" "k < length (lines m)" "lines m ! k = None"
    by blast
  with True show ?thesis by (auto simp: alloc_slot_def)
next
  case False
  then have "\<forall>j<length (lines m). lines m ! j \<noteq> None"
    by (metis nth_mem)
  with False show ?thesis by (simp add: alloc_slot_def)
qed


lemma free_slot_nat:
  "k < length (lines m) \<Longrightarrow> free_slot m (int k) = Inr (m\<lparr>lines := (lines m)[k := None]\<rparr>)"
  by (simp add: free_slot_def list_setitem_def Let_def)

text \<open>
  Claim C5. \<open>_alloc_slot\<close> returns the lowest index whose slot is free, and \<open>None\<close>
  exactly when every slot is occupied. So when all slots below \<open>k\<close> are occupied and slot
  \<open>k\<close> is freed, the next allocation returns \<open>k\<close>: with slots 0, 1 and 2 occupied, freeing
  slot 1 makes the next allocation return 1.
\<close>

theorem alloc_slot_lowest_free:
  "(alloc_slot m = Inr (Some i) \<longleftrightarrow>
      i < length (lines m) \<and> lines m ! i = None \<and> (\<forall>j<i. lines m ! j \<noteq> None))
   \<and> (alloc_slot m = Inr None \<longleftrightarrow> (\<forall>j<length (lines m). lines m ! j \<noteq> None))
   \<and> (k < length (lines m) \<and> (\<forall>j<k. lines m ! j \<noteq> None) \<longrightarrow>
        (\<exists>m'. free_slot m (int k) = Inr m' \<and> alloc_slot m' = Inr (Some k)))"
proof (intro conjI impI)
  show "alloc_slot m = Inr (Some i) \<longleftrightarrow>
      i < length (lines m) \<and> lines m ! i = None \<and> (\<forall>j<i. lines m ! j \<noteq> None)"
    by (rule alloc_slot_Some_iff)
  show "alloc_slot m = Inr None \<longleftrightarrow> (\<forall>j<length (lines m). lines m ! j \<noteq> None)"
    by (rule alloc_slot_None_iff)
next
  assume h: "k < length (lines m) \<and> (\<forall>j<k. lines m ! j \<noteq> None)"
  let ?m = "m\<lparr>lines := (lines m)[k := None]\<rparr>"
  have "alloc_slot ?m = Inr (Some k)"
    using h by (simp add: alloc_slot_Some_iff)
  with h show "\<exists>m'. free_slot m (int k) = Inr m' \<and> alloc_slot m' = Inr (Some k)"
    by (simp add: free_slot_nat)
qed

theorem alloc_slot_lowest_free_witness:
  "alloc_slot \<lparr>main_coords = (0, 7), sub_coords = (4, 8),
      lines = [Some (ProgressBar [] None), Some (ProgressBar [] None), Some (ProgressBar [] None),
               None, None, None, None, None, None, None]\<rparr> = Inr (Some 3)
   \<and> (\<exists>m'. free_slot \<lparr>main_coords = (0, 7), sub_coords = (4, 8),
      lines = [Some (ProgressBar [] None), Some (ProgressBar [] None), Some (ProgressBar [] None),
               None, None, None, None, None, None, None]\<rparr> (int 1) = Inr m'
        \<and> alloc_slot m' = Inr (Some 1))"
  using alloc_slot_lowest_free [of "\<lparr>main_coords = (0, 7), sub_coords = (4, 8),
      lines = [Some (ProgressBar [] None), Some (ProgressBar [] None), Some (ProgressBar [] None),
               None, None, None, None, None, None, None]\<rparr>" 3 1]
  by (simp add: nth_Cons' less_Suc_eq_0_disj)

text \<open>
  Claim C6, as amended. \<open>_free_slot\<close> is the single assignment
  \<^verbatim>\<open>self._lines[slot] = None\<close> and checks nothing. It raises (IndexError) exactly when
  the index is \<open>N\<close> or more, or below \<open>-N\<close>, for a pool of \<open>N\<close> slots; an index from
  \<open>-N\<close> to \<open>-1\<close> counts from the end of the pool. On a slot that is already free it
  returns normally and leaves the pool as it was.
\<close>

theorem free_slot_unchecked:
  "free_slot m slot =
     (if - int (length (lines m)) \<le> slot \<and> slot < int (length (lines m))
      then Inr (m\<lparr>lines := (lines m)
                 [nat (if slot < 0 then int (length (lines m)) + slot else slot) := None]\<rparr>)
      else Inl IndexError)
   \<and> (k < length (lines m) \<and> lines m ! k = None \<longrightarrow> free_slot m (int k) = Inr m)"
proof
  show "free_slot m slot =
     (if - int (length (lines m)) \<le> slot \<and> slot < int (length (lines m))
      then Inr (m\<lparr>lines := (lines m)
                 [nat (if slot < 0 then int (length (lines m)) + slot else slot) := None]\<rparr>)
      else Inl IndexError)"
    by (auto simp: free_slot_def list_setitem_def Let_def)
next
  show "k < length (lines m) \<and> lines m ! k = None \<longrightarrow> free_slot m (int k) = Inr m"
  proof
    assume h: "k < length (lines m) \<and> lines m ! k = None"
    then have "(lines m)[k := None] = lines m"
      by (metis list_update_id)
    with h show "free_slot m (int k) = Inr m"
      by (simp add: free_slot_nat)
  qed
qed

theorem free_slot_unchecked_witness:
  "free_slot (new_manager (0, 7) (Some 2)) (int 1) = Inr (new_manager (0, 7) (Some 2))
   \<and> free_slot (new_manager (0, 7) (Some 2)) 2 = Inl IndexError
   \<and> free_slot (new_manager (0, 7) (Some 2)) (- 1) = Inr (new_manager (0, 7) (Some 2))"
  using free_slot_unchecked [of "new_manager (0, 7) (Some 2)" 2 1]
    free_slot_unchecked [of "new_manager (0, 7) (Some 2)" "- 1" 1]
  by (simp add: new_manager_def numeral_2_eq_2)

text \<open>
  Claim C6 as stated fails: freeing slot 0 of a pool whose slots are all free returns
  normally.
\<close>

theorem free_slot_already_free_counterexample:
  "free_slot (new_manager (0, 7) (Some 2)) 0 = Inr (new_manager (0, 7) (Some 2))"
  by (simp add: free_slot_def list_setitem_def new_manager_def numeral_2_eq_2)

section \<open>The concurrency bound\<close>

lemma count_update:
  "i < length xs \<Longrightarrow>
   length (filter P (xs[i := y])) + (if P (xs ! i) then 1 else 0) =
   length (filter P xs) + (if P y then 1 else 0)"
proof (induction xs arbitrary: i)
  case Nil
  then show ?case by simp
next
  case (Cons x xs)
  show ?case
  proof (cases i)
    case 0
    then show ?thesis by simp
  next
    case (Suc j)
    with Cons.prems have "j < length xs" by simp
    from Cons.IH [OF this] Suc show ?thesis by simp
  qed
qed

lemma wrapper_conserves:
  "sem_value (wrapper s e) + streaming (wrapper s e) = sem_value s + streaming s"
proof (cases e)
  case (Pair i r)
  show ?thesis
  proof (cases "i < length (tasks s)")
    case False
    with Pair show ?thesis by (simp add: wrapper_def)
  next
    case True
    note cu = count_update [OF True, of "\<lambda>p. p = Streaming"]
    show ?thesis
    proof (cases "tasks s ! i")
      case Pending
      with Pair True cu [of Streaming] show ?thesis
        by (simp add: wrapper_def streaming_def)
    next
      case Streaming
      with Pair True cu [of "Done r"] show ?thesis
        by (simp add: wrapper_def streaming_def)
    next
      case (Done r')
      with Pair True show ?thesis by (simp add: wrapper_def)
    qed
  qed
qed

lemma run_conserves: "sem_value (run s evs) + streaming (run s evs) = sem_value s + streaming s"
  unfolding run_def
  by (induction evs arbitrary: s) (simp_all add: wrapper_conserves)

lemma streaming_initial: "streaming (bound_concurrency B T) = 0"
  by (simp add: streaming_def bound_concurrency_def)

lemma run_invariant:
  "sem_value (run (bound_concurrency B T) evs) + streaming (run (bound_concurrency B T) evs) = B"
  by (simp add: run_conserves streaming_initial) (simp add: bound_concurrency_def)

lemma wrapper_release:
  "i < length (tasks s) \<Longrightarrow> tasks s ! i = Streaming \<Longrightarrow>
   sem_value (wrapper s (i, r)) = sem_value s + 1 \<and> tasks (wrapper s (i, r)) ! i = Done r"
  by (simp add: wrapper_def)

lemma wrapper_done: "i < length (tasks s) \<Longrightarrow> tasks s ! i = Done r' \<Longrightarrow> wrapper s (i, r) = s"
  by (simp add: wrapper_def)

lemma wrapper_acquire:
  "i < length (tasks s) \<Longrightarrow> tasks s ! i = Pending \<Longrightarrow>
   wrapper s (i, r) =
     (if 0 < sem_value s
      then s\<lparr>sem_value := sem_value s - 1, tasks := (tasks s)[i := Streaming]\<rparr> else s)"
  by (simp add: wrapper_def)

text \<open>
  Claim C3. Start \<open>T\<close> calls of a coroutine wrapped by \<open>bound_concurrency(B)\<close> and let the
  event loop resume them in any order \<open>evs\<close>. In every state that is reached, at most
  \<open>B\<close> calls are past the acquire point, and the tickets held and the tickets left add up
  to \<open>B\<close>. While \<open>B\<close> calls are streaming, a pending call that is resumed stays pending;
  it enters once a ticket is back. A streaming call gives its ticket back when the
  coroutine ends, with whatever result \<open>r\<close> (a return or any exception), and a call that
  has ended gives nothing back a second time.
\<close>

theorem bound_concurrency_limit:
  assumes s: "s = run (bound_concurrency B T) evs"
  shows "streaming s \<le> B
    \<and> sem_value s + streaming s = B
    \<and> (i < length (tasks s) \<and> tasks s ! i = Pending \<and> streaming s = B \<longrightarrow> wrapper s (i, r) = s)
    \<and> (i < length (tasks s) \<and> tasks s ! i = Pending \<and> streaming s < B \<longrightarrow>
          tasks (wrapper s (i, r)) ! i = Streaming \<and> sem_value (wrapper s (i, r)) + 1 = sem_value s)
    \<and> (i < length (tasks s) \<and> tasks s ! i = Streaming \<longrightarrow>
          tasks (wrapper s (i, r)) ! i = Done r \<and> sem_value (wrapper s (i, r)) = sem_value s + 1)
    \<and> (i < length (tasks s) \<and> tasks s ! i = Done r' \<longrightarrow> wrapper s (i, r) = s)
    \<and> (streaming s = 0 \<longrightarrow> sem_value s = B)"
proof -
  have inv: "sem_value s + streaming s = B"
    unfolding s by (rule run_invariant)
  show ?thesis
  proof (intro conjI impI)
    show "streaming s \<le> B" using inv by simp
    show "sem_value s + streaming s = B" by (rule inv)
    show "wrapper s (i, r) = s"
      if "i < length (tasks s) \<and> tasks s ! i = Pending \<and> streaming s = B"
      using that inv by (simp add: wrapper_acquire)
    show "tasks (wrapper s (i, r)) ! i = Streaming"
      if "i < length (tasks s) \<and> tasks s ! i = Pending \<and> streaming s < B"
      using that inv by (simp add: wrapper_acquire)
    show "sem_value (wrapper s (i, r)) + 1 = sem_value s"
      if "i < length (tasks s) \<and> tasks s ! i = Pending \<and> streaming s < B"
      using that inv by (simp add: wrapper_acquire)
    show "tasks (wrapper s (i, r)) ! i = Done r"
      if "i < length (tasks s) \<and> tasks s ! i = Streaming"
      using that by (simp add: wrapper_release)
    show "sem_value (wrapper s (i, r)) = sem_value s + 1"
      if "i < length (tasks s) \<and> tasks s ! i = Streaming"
      using that by (simp add: wrapper_release)
    show "wrapper s (i, r) = s" if "i < length (tasks s) \<and> tasks s ! i = Done r'"
      using that by (simp add: wrapper_done)
    show "sem_value s = B" if "streaming s = 0"
      using that inv by simp
  qed
qed

lemma run_two_of_three: "run (bound_concurrency 2 3) [(0, Inr ()), (1, Inr ()), (2, Inr ())] =
   \<lparr>sem_value = 0, tasks = [Streaming, Streaming, Pending]\<rparr>"
  by (simp add: run_def bound_concurrency_def wrapper_def numeral_3_eq_3)

theorem bound_concurrency_limit_witness:
  "streaming (run (bound_concurrency 2 3) [(0, Inr ()), (1, Inr ()), (2, Inr ())]) = 2
   \<and> wrapper (run (bound_concurrency 2 3) [(0, Inr ()), (1, Inr ()), (2, Inr ())]) (2, Inr ())
       = run (bound_concurrency 2 3) [(0, Inr ()), (1, Inr ()), (2, Inr ())]
   \<and> tasks (wrapper (run (bound_concurrency 2 3) [(0, Inr ()), (1, Inr ()), (2, Inr ())])
        (0, Inl TypeError)) ! 0 = Done (Inl TypeError)
   \<and> sem_value (wrapper (run (bound_concurrency 2 3) [(0, Inr ()), (1, Inr ()), (2, Inr ())])
        (0, Inl TypeError)) = 1"
proof -
  note a = bound_concurrency_limit [where B = 2 and T = 3
        and evs = "[(0, Inr ()), (1, Inr ()), (2, Inr ())]" and i = 2 and r = "Inr ()",
        OF refl, unfolded run_two_of_three]
  note b = bound_concurrency_limit [where B = 2 and T = 3
        and evs = "[(0, Inr ()), (1, Inr ()), (2, Inr ())]" and i = 0 and r = "Inl TypeError",
        OF refl, unfolded run_two_of_three]
  show ?thesis
    unfolding run_two_of_three using a b by (simp add: streaming_def)
qed

section \<open>The slot of a failed download\<close>

text \<open>
  Claim C1, at a failing input: a download of six announced bytes whose stream raises
  ClientError after the first chunk, in the world that \<open>main\<close> builds. \<open>download_file\<close>
  catches the exception, logs it and returns, so the task has ended; but the code after
  the \<^verbatim>\<open>yield\<close> of \<open>install_sub_bar\<close> has not run: slot 0 still holds the bar of
  the ended task, and the next allocation returns slot 1. When the same stream ends
  without an exception, slot 0 is free again afterwards.
\<close>

theorem install_sub_bar_keeps_slot_on_error:
  "fst (download_file
      (answering \<lparr>status = 200, headers = [''Content-Length'' \<mapsto> ''6''], body_text = Inr [],
         chunks = [Chunk ''abc'', Raise ClientError]\<rparr> [] Map.empty)
      ''http://speedtest.tele2.net/100MB.zip'' ''/tmp/'' (main_world Map.empty)) = Inr ()
   \<and> logged (snd (download_file
      (answering \<lparr>status = 200, headers = [''Content-Length'' \<mapsto> ''6''], body_text = Inr [],
         chunks = [Chunk ''abc'', Raise ClientError]\<rparr> [] Map.empty)
      ''http://speedtest.tele2.net/100MB.zip'' ''/tmp/'' (main_world Map.empty))) =
       [Debug_downloading ''http://speedtest.tele2.net/100MB.zip'' ''/tmp/'',
        Error_could_not_download ''http://speedtest.tele2.net/100MB.zip'' ClientError]
   \<and> lines (progress_manager (snd (download_file
      (answering \<lparr>status = 200, headers = [''Content-Length'' \<mapsto> ''6''], body_text = Inr [],
         chunks = [Chunk ''abc'', Raise ClientError]\<rparr> [] Map.empty)
      ''http://speedtest.tele2.net/100MB.zip'' ''/tmp/'' (main_world Map.empty)))) ! 0 \<noteq> None
   \<and> alloc_slot (progress_manager (snd (download_file
      (answering \<lparr>status = 200, headers = [''Content-Length'' \<mapsto> ''6''], body_text = Inr [],
         chunks = [Chunk ''abc'', Raise ClientError]\<rparr> [] Map.empty)
      ''http://speedtest.tele2.net/100MB.zip'' ''/tmp/'' (main_world Map.empty)))) = Inr (Some 1)
   \<and> alloc_slot (progress_manager (snd (download_file
      (answering \<lparr>status = 200, headers = [''Content-Length'' \<mapsto> ''6''], body_text = Inr [],
         chunks = [Chunk ''abc'', Chunk ''def'']\<rparr> [] Map.empty)
      ''http://speedtest.tele2.net/100MB.zip'' ''/tmp/'' (main_world Map.empty)))) = Inr (Some 0)"
  by code_simp

section \<open>A listing without a matching link\<close>

text \<open>
  Claim C2, at a failing input: the listing page is fetched and its links are
  \<open>a.zip\<close> and \<open>200MB.zip\<close>, none of which starts with \<open>100MB\<close>. Indexing the empty
  list of matches raises IndexError, which nothing in \<open>scrape\<close> catches: the exception
  leaves \<open>scrape\<close>. No download is started, and the log ends with the count of zip
  links; nothing about the missing match is logged.
\<close>

theorem scrape_no_match_raises:
  "fst (scrape
      (answering \<lparr>status = 200, headers = Map.empty, body_text = Inr ''listing'', chunks = []\<rparr>
         [''a.zip'', ''200MB.zip''] Map.empty)
      (main_world Map.empty)) = Inl IndexError
   \<and> logged (snd (scrape
      (answering \<lparr>status = 200, headers = Map.empty, body_text = Inr ''listing'', chunks = []\<rparr>
         [''a.zip'', ''200MB.zip''] Map.empty)
      (main_world Map.empty))) =
       [Debug_fetching ''http://speedtest.tele2.net/'', Debug_got_response 200,
        Info_extracting, Info_got_zip_links 2]
   \<and> downloads_started (logged (snd (scrape
      (answering \<lparr>status = 200, headers = Map.empty, body_text = Inr ''listing'', chunks = []\<rparr>
         [''a.zip'', ''200MB.zip''] Map.empty)
      (main_world Map.empty)))) = []"
  by code_simp

section \<open>The output file name\<close>

text \<open>
  Claim C4, at a failing input: the response carries the header
  \<open>Content-Disposition: attachment\<close>, which parses to no parameters. The file name is then
  \<open>None\<close>, although the URL has the base name \<open>100MB.zip\<close>; building the path raises
  TypeError, which no \<^verbatim>\<open>except\<close> clause of \<open>download_file\<close> catches, and no file is
  created.
\<close>

theorem download_file_no_filename_raises:
  "fst (download_file
      (answering \<lparr>status = 200, headers = [''Content-Disposition'' \<mapsto> ''attachment''],
         body_text = Inr [], chunks = [Chunk ''abc'']\<rparr> [] Map.empty)
      ''http://speedtest.tele2.net/100MB.zip'' ''/tmp/'' (main_world Map.empty)) = Inl TypeError
   \<and> logged (snd (download_file
      (answering \<lparr>status = 200, headers = [''Content-Disposition'' \<mapsto> ''attachment''],
         body_text = Inr [], chunks = [Chunk ''abc'']\<rparr> [] Map.empty)
      ''http://speedtest.tele2.net/100MB.zip'' ''/tmp/'' (main_world Map.empty))) =
       [Debug_downloading ''http://speedtest.tele2.net/100MB.zip'' ''/tmp/'',
        Debug_got_filename None ''100MB.zip'']
   \<and> files (snd (download_file
      (answering \<lparr>status = 200, headers = [''Content-Disposition'' \<mapsto> ''attachment''],
         body_text = Inr [], chunks = [Chunk ''abc'']\<rparr> [] Map.empty)
      ''http://speedtest.tele2.net/100MB.zip'' ''/tmp/'' (main_world Map.empty))) (''/tmp/'', ''100MB.zip'') = None"
  by code_simp

section \<open>Progress over the chunk stream\<close>

lemma pb_update_result:
  "pb_update pb v = Inr pb' \<Longrightarrow> currval pb' = v \<and> maxval pb' = maxval pb"
  by (auto simp: pb_update_def split: option.splits if_splits)

lemma iter_chunks_mono:
  "iter_chunks ev fs p xs pb w = (r, pb1, w1) \<Longrightarrow>
   currval pb \<le> currval pb1 \<and> maxval pb1 = maxval pb"
proof (induction ev fs p xs pb w rule: iter_chunks.induct)
  case (1 ev file_size path pb w)
  then show ?case by simp
next
  case (2 ev file_size path e rest pb w)
  then show ?case by simp
next
  case (3 ev file_size path c rest pb w)
  let ?u = "if file_size \<noteq> None \<and> file_size \<noteq> Some 0
            then pb_update pb (currval pb + int (length c)) else Inr pb"
  show ?case
  proof (cases ?u)
    case (Inl e)
    with "3.prems" show ?thesis by (simp split: if_splits)
  next
    case (Inr pb')
    then have step: "currval pb \<le> currval pb' \<and> maxval pb' = maxval pb"
      by (auto split: if_splits dest: pb_update_result)
    show ?thesis
    proof (cases "file_write ev path c w")
      case (Inl e)
      with Inr "3.prems" step show ?thesis by (simp split: if_splits)
    next
      case wr: (Inr w')
      from "3.prems" Inr wr have "iter_chunks ev file_size path rest pb' w' = (r, pb1, w1)"
        by (simp split: if_splits)
      from "3.IH" [OF Inr wr this] step show ?thesis by simp
    qed
  qed
qed

lemma iter_chunks_append:
  "iter_chunks ev fs p (xs @ ys) pb w =
     (case iter_chunks ev fs p xs pb w of
        (Inl e, pb1, w1) \<Rightarrow> (Inl e, pb1, w1)
      | (Inr u, pb1, w1) \<Rightarrow> iter_chunks ev fs p ys pb1 w1)"
proof (induction ev fs p xs pb w rule: iter_chunks.induct)
  case (1 ev file_size path pb w)
  then show ?case by simp
next
  case (2 ev file_size path e rest pb w)
  then show ?case by simp
next
  case (3 ev file_size path c rest pb w)
  let ?u = "if file_size \<noteq> None \<and> file_size \<noteq> Some 0
            then pb_update pb (currval pb + int (length c)) else Inr pb"
  show ?case
  proof (cases ?u)
    case (Inl e)
    then show ?thesis by (simp split: if_splits)
  next
    case (Inr pb')
    show ?thesis
    proof (cases "file_write ev path c w")
      case (Inl e)
      with Inr show ?thesis by (simp split: if_splits)
    next
      case wr: (Inr w')
      from "3.IH" [OF Inr wr] Inr wr show ?thesis by (simp split: if_splits)
    qed
  qed
qed

text \<open>
  Claim C7. Over the chunk stream of one task, the value of the progress bar never goes
  down: its value after any part \<open>xs\<close> of the stream is at most its value after a longer
  part \<open>xs @ ys\<close>, and at least its value before. \<open>maxval\<close> stays what it was, so the
  percentage drawn from the two rises with the value. When the size is known and not
  zero, a chunk that is processed sets the value to the value before plus the length of
  the chunk.
\<close>

theorem progress_monotone:
  "currval (fst (snd (iter_chunks ev fs p xs pb w))) \<le>
     currval (fst (snd (iter_chunks ev fs p (xs @ ys) pb w)))
   \<and> currval pb \<le> currval (fst (snd (iter_chunks ev fs p xs pb w)))
   \<and> maxval (fst (snd (iter_chunks ev fs p xs pb w))) = maxval pb
   \<and> (fs \<noteq> None \<and> fs \<noteq> Some 0 \<and> iter_chunks ev fs p [Chunk c] pb w = (Inr (), pb1, w1) \<longrightarrow>
        currval pb1 = currval pb + int (length c))"
proof (intro conjI impI)
  obtain r1 pbx wx where x: "iter_chunks ev fs p xs pb w = (r1, pbx, wx)"
    by (metis prod_cases3)
  show "currval pb \<le> currval (fst (snd (iter_chunks ev fs p xs pb w)))"
    using iter_chunks_mono [OF x] x by simp
  show "maxval (fst (snd (iter_chunks ev fs p xs pb w))) = maxval pb"
    using iter_chunks_mono [OF x] x by simp
  show "currval (fst (snd (iter_chunks ev fs p xs pb w))) \<le>
     currval (fst (snd (iter_chunks ev fs p (xs @ ys) pb w)))"
  proof (cases r1)
    case (Inl e)
    with x show ?thesis by (simp add: iter_chunks_append)
  next
    case (Inr u)
    obtain r2 pby wy where y: "iter_chunks ev fs p ys pbx wx = (r2, pby, wy)"
      by (metis prod_cases3)
    from iter_chunks_mono [OF y] x y Inr show ?thesis
      by (simp add: iter_chunks_append)
  qed
next
  assume h: "fs \<noteq> None \<and> fs \<noteq> Some 0 \<and> iter_chunks ev fs p [Chunk c] pb w = (Inr (), pb1, w1)"
  then show "currval pb1 = currval pb + int (length c)"
    by (auto split: sum.splits dest: pb_update_result)
qed

theorem progress_monotone_witness:
  "currval (fst (snd (iter_chunks
      (answering \<lparr>status = 200, headers = Map.empty, body_text = Inr [], chunks = []\<rparr> [] Map.empty)
      (Some 6) (''/tmp/'', ''f'') [Chunk ''abc''] (ProgressBar [] (Some 6)) (main_world Map.empty)))) = 3
   \<and> currval (fst (snd (iter_chunks
      (answering \<lparr>status = 200, headers = Map.empty, body_text = Inr [], chunks = []\<rparr> [] Map.empty)
      (Some 6) (''/tmp/'', ''f'') ([Chunk ''abc''] @ [Chunk ''def'']) (ProgressBar [] (Some 6))
      (main_world Map.empty)))) = 6
   \<and> (3::int) \<le> 6"
proof -
  let ?ev = "answering \<lparr>status = 200, headers = Map.empty, body_text = Inr [], chunks = []\<rparr> [] Map.empty"
  have a: "currval (fst (snd (iter_chunks ?ev
      (Some 6) (''/tmp/'', ''f'') [Chunk ''abc''] (ProgressBar [] (Some 6)) (main_world Map.empty)))) = 3"
    by code_simp
  have b: "currval (fst (snd (iter_chunks ?ev
      (Some 6) (''/tmp/'', ''f'') ([Chunk ''abc''] @ [Chunk ''def'']) (ProgressBar [] (Some 6))
      (main_world Map.empty)))) = 6"
    by code_simp
  from progress_monotone [of ?ev "Some 6" "(''/tmp/'', ''f'')" "[Chunk ''abc'']" "ProgressBar [] (Some 6)"
      "main_world Map.empty" "[Chunk ''def'']"]
  show ?thesis unfolding a b by simp
qed

section \<open>The log of a download\<close>

lemma downloads_started_append:
  "downloads_started (xs @ ys) = downloads_started xs @ downloads_started ys"
  by (induction xs rule: downloads_started.induct) simp_all

lemma file_write_frame:
  "file_write ev p c w = Inr w1 \<Longrightarrow>
   logged w1 = logged w \<and> progress_manager w1 = progress_manager w"
  by (auto simp: file_write_def Let_def split: option.splits if_splits)

lemma file_open_frame:
  "file_open ev p w = Inr w1 \<Longrightarrow>
   logged w1 = logged w \<and> progress_manager w1 = progress_manager w"
  by (auto simp: file_open_def split: if_splits)

lemma iter_chunks_frame:
  "iter_chunks ev fs p xs pb w = (r, pb1, w1) \<Longrightarrow>
   logged w1 = logged w \<and> progress_manager w1 = progress_manager w"
proof (induction ev fs p xs pb w rule: iter_chunks.induct)
  case (1 ev file_size path pb w)
  then show ?case by simp
next
  case (2 ev file_size path e rest pb w)
  then show ?case by simp
next
  case (3 ev file_size path c rest pb w)
  let ?u = "if file_size \<noteq> None \<and> file_size \<noteq> Some 0
            then pb_update pb (currval pb + int (length c)) else Inr pb"
  show ?case
  proof (cases ?u)
    case (Inl e)
    with "3.prems" show ?thesis by (simp split: if_splits)
  next
    case (Inr pb')
    show ?thesis
    proof (cases "file_write ev path c w")
      case (Inl e)
      with Inr "3.prems" show ?thesis by (simp split: if_splits)
    next
      case wr: (Inr w')
      from "3.prems" Inr wr have "iter_chunks ev file_size path rest pb' w' = (r, pb1, w1)"
        by (simp split: if_splits)
      from "3.IH" [OF Inr wr this] file_write_frame [OF wr] show ?thesis by simp
    qed
  qed
qed

lemma sub_bar_enter_frame:
  "sub_bar_enter pb w = (r, pb1, w1) \<Longrightarrow> logged w1 = logged w \<and> files w1 = files w"
  by (auto simp: sub_bar_enter_def Let_def split: sum.splits option.splits)

lemma sub_bar_exit_frame:
  "sub_bar_exit slot pb w = (r, pb1, w1) \<Longrightarrow> logged w1 = logged w \<and> files w1 = files w"
  by (auto simp: sub_bar_exit_def split: sum.splits option.splits)

lemma install_sub_bar_iter_logged:
  assumes "install_sub_bar pb (iter_chunks ev fs p xs) w = (r, pb1, w1)"
  shows "logged w1 = logged w"
proof -
  obtain r0 pb0 w0 where en: "sub_bar_enter pb w = (r0, pb0, w0)"
    by (metis prod_cases3)
  note f0 = sub_bar_enter_frame [OF en]
  show ?thesis
  proof (cases r0)
    case (Inl e)
    with en assms f0 show ?thesis by (simp add: install_sub_bar_def)
  next
    case (Inr slot)
    obtain r2 pb2 w2 where it: "iter_chunks ev fs p xs pb0 w0 = (r2, pb2, w2)"
      by (metis prod_cases3)
    note f2 = iter_chunks_frame [OF it]
    show ?thesis
    proof (cases r2)
      case (Inl e)
      with Inr en it assms f0 f2 show ?thesis by (simp add: install_sub_bar_def)
    next
      case ok: (Inr u)
      with Inr en it assms have "sub_bar_exit slot pb2 w2 = (r, pb1, w1)"
        by (simp add: install_sub_bar_def)
      from sub_bar_exit_frame [OF this] f0 f2 show ?thesis by simp
    qed
  qed
qed

lemma download_try_logged:
  "\<exists>es. logged (snd (download_try ev url folder w)) = logged w @ Debug_downloading url folder # es
        \<and> downloads_started es = [] \<and> (\<forall>e. Error_could_not_fetch e \<notin> set es)"
proof (cases "http_get ev url")
  case (Inl e)
  then show ?thesis by (simp add: download_try_def logm_def)
next
  case (Inr resp)
  define w1 where "w1 = logm (Debug_downloading url folder) w"
  define fw where "fw = (case headers resp ''Content-Disposition'' of
                     None \<Rightarrow> (Some (basename url), w1)
                   | Some content_dispo \<Rightarrow>
                       if content_dispo = [] then (Some (basename url), w1)
                       else (let filename = snd (parse_header ev content_dispo) ''filename''
                             in (filename, logm (Debug_got_filename filename (basename url)) w1)))"
  obtain filename w2 where fw2: "fw = (filename, w2)" by (cases fw)
  have l2: "\<exists>es. logged w2 = logged w @ Debug_downloading url folder # es \<and> downloads_started es = []
      \<and> (\<forall>e. Error_could_not_fetch e \<notin> set es)"
    using fw2 unfolding fw_def w1_def
    by (auto simp: logm_def Let_def split: option.splits if_splits)
  define cl where "cl = (case headers resp ''Content-Length'' of
                      None \<Rightarrow> Inr None
                    | Some content_length \<Rightarrow>
                        if content_length = [] then Inr None
                        else map_sum id Some (py_int content_length))"
  have dt: "download_try ev url folder w =
     (case cl of
                Inl e \<Rightarrow> (Inl e, w2)
              | Inr file_size \<Rightarrow>
                  (case filename of
                     None \<Rightarrow> (Inl TypeError, w2)
                   | Some fname \<Rightarrow>
                       (case file_open ev (folder, fname) w2 of
                          Inl e \<Rightarrow> (Inl e, w2)
                        | Inr w3 \<Rightarrow>
                            (let chunks_bar = ProgressBar (Text fname # SUB_BAR_WIDGETS) file_size
                             in case install_sub_bar chunks_bar
                                       (iter_chunks ev file_size (folder, fname) (chunks resp)) w3 of
                                  (r, pb, w4) \<Rightarrow> (r, w4)))))"
    using Inr fw2 unfolding download_try_def fw_def cl_def w1_def by (simp add: Let_def)
  show ?thesis
  proof (cases cl)
    case (Inl e)
    with dt l2 show ?thesis by simp
  next
    case fs: (Inr file_size)
    show ?thesis
    proof (cases filename)
      case None
      with fs dt l2 show ?thesis by simp
    next
      case (Some fname)
      show ?thesis
      proof (cases "file_open ev (folder, fname) w2")
        case (Inl e)
        with Some fs dt l2 show ?thesis by simp
      next
        case op: (Inr w3)
        obtain r pb w4 where ins: "install_sub_bar (ProgressBar (Text fname # SUB_BAR_WIDGETS) file_size)
              (iter_chunks ev file_size (folder, fname) (chunks resp)) w3 = (r, pb, w4)"
          by (metis prod_cases3)
        from install_sub_bar_iter_logged [OF ins] file_open_frame [OF op]
        have "logged w4 = logged w2" by simp
        with Some fs dt l2 op ins show ?thesis by (simp add: Let_def)
      qed
    qed
  qed
qed

lemma download_file_started:
  "downloads_started (logged (snd (download_file ev url folder w))) =
   downloads_started (logged w) @ [url]"
proof -
  obtain r w1 where dt: "download_try ev url folder w = (r, w1)" by (cases "download_try ev url folder w")
  from download_try_logged [of ev url folder w] dt obtain es where
    es: "logged w1 = logged w @ Debug_downloading url folder # es" "downloads_started es = []"
    by auto
  have "downloads_started (logged (snd (download_except url (r, w1)))) =
        downloads_started (logged w1)"
    by (cases r) (simp_all add: download_except_def logm_def downloads_started_append)
  with es dt show ?thesis
    by (simp add: download_file_def downloads_started_append)
qed

lemma install_main_started:
  assumes "maxval pb = Some 1"
  shows "downloads_started (logged (snd (install_main pb (download_file ev url folder) w))) =
   downloads_started (logged w) @ [url]"
proof -
  let ?pb2 = "pb\<lparr>fd := Writer (main_coords (progress_manager w)),
                 widgets := Bold # widgets pb\<rparr>"
  obtain pb3 where st: "pb_start ?pb2 = Inr pb3"
    using assms by (simp add: pb_start_def pb_update_def)
  obtain r w1 where df: "download_file ev url folder w = (r, w1)"
    by (cases "download_file ev url folder w")
  from download_file_started [of ev url folder w] df
  have d: "downloads_started (logged w1) = downloads_started (logged w) @ [url]" by simp
  have "snd (install_main pb (download_file ev url folder) w) = w1"
    using st df by (cases r) (simp_all add: install_main_def Let_def split: sum.splits)
  with d show ?thesis by simp
qed

lemma download_file_entries:
  "\<exists>es. logged (snd (download_file ev url folder w)) = logged w @ es
        \<and> (\<forall>e. Error_could_not_fetch e \<notin> set es)"
proof -
  obtain r w1 where dt: "download_try ev url folder w = (r, w1)"
    by (cases "download_try ev url folder w")
  from download_try_logged [of ev url folder w] dt obtain es where
    es: "logged w1 = logged w @ Debug_downloading url folder # es"
      "\<forall>e. Error_could_not_fetch e \<notin> set es"
    by auto
  have "\<exists>tl. logged (snd (download_except url (r, w1))) = logged w1 @ tl
      \<and> (\<forall>e. Error_could_not_fetch e \<notin> set tl)"
    by (cases r) (auto simp: download_except_def logm_def)
  then obtain tl where tl: "logged (snd (download_except url (r, w1))) = logged w1 @ tl"
      "\<forall>e. Error_could_not_fetch e \<notin> set tl"
    by blast
  have "logged (snd (download_file ev url folder w)) =
      logged w @ (Debug_downloading url folder # es @ tl)"
    using dt es(1) tl(1) by (simp add: download_file_def)
  moreover have "\<forall>e. Error_could_not_fetch e \<notin> set (Debug_downloading url folder # es @ tl)"
    using es(2) tl(2) by simp
  ultimately show ?thesis by blast
qed

lemma install_main_world:
  assumes "maxval pb = Some 1"
  shows "snd (install_main pb body w) = snd (body w)"
proof -
  let ?pb2 = "pb\<lparr>fd := Writer (main_coords (progress_manager w)),
                 widgets := Bold # widgets pb\<rparr>"
  obtain pb3 where st: "pb_start ?pb2 = Inr pb3" and m3: "maxval pb3 = Some 1"
    using assms by (simp add: pb_start_def pb_update_def)
  then obtain pb4 where fi: "pb_finish pb3 = Inr pb4"
    by (simp add: pb_finish_def pb_update_def)
  obtain r w1 where b: "body w = (r, w1)" by (cases "body w")
  show ?thesis
    using st fi b by (cases r) (simp_all add: install_main_def Let_def)
qed

section \<open>A failed fetch of the listing page\<close>

text \<open>
  Claim C8, as amended. When the request for the listing page raises ClientError or
  TimeoutError, or is answered with a status of 400 or more, or reading the body raises
  one of the two, \<open>scrape\<close> logs the failure as its last log entry and returns
  normally; no download is started, and files and slot pool are as before. Every other
  answer is taken as the listing: when the status is below 400, whether it is 2xx or
  not, and the body can be read, \<open>scrape\<close> goes on to extract the links from the body
  and logs no fetch failure, and when a link matches, the download of that link is
  started.
\<close>

theorem scrape_fetch_failure:
  "(http_get ev listing_url = Inl ClientError \<or> http_get ev listing_url = Inl TimeoutError
     \<or> (\<exists>r. http_get ev listing_url = Inr r \<and>
           (400 \<le> status r \<or> body_text r = Inl ClientError \<or> body_text r = Inl TimeoutError))
    \<longrightarrow>
      fst (scrape ev w) = Inr ()
      \<and> (\<exists>pre e. logged (snd (scrape ev w)) = logged w @ pre @ [Error_could_not_fetch e])
      \<and> downloads_started (logged (snd (scrape ev w))) = downloads_started (logged w)
      \<and> files (snd (scrape ev w)) = files w
      \<and> progress_manager (snd (scrape ev w)) = progress_manager w)
   \<and> (http_get ev listing_url = Inr resp \<and> status resp < 400 \<and> body_text resp = Inr resp_text
    \<longrightarrow>
      (\<exists>rest. logged (snd (scrape ev w)) =
          logged w @
          [Debug_fetching listing_url, Debug_got_response (status resp), Info_extracting,
           Info_got_zip_links
             (length (filter (\<lambda>href. endswith href ''.zip'') (find_all_href ev resp_text)))] @ rest
        \<and> (\<forall>e. Error_could_not_fetch e \<notin> set rest))
      \<and> (filter (\<lambda>href. startswith href ''100MB'')
            (filter (\<lambda>href. endswith href ''.zip'') (find_all_href ev resp_text)) = target_url # others
          \<longrightarrow> downloads_started (logged (snd (scrape ev w))) =
                downloads_started (logged w) @ [listing_url @ target_url]))"
proof (intro conjI impI)
  assume fails: "http_get ev listing_url = Inl ClientError \<or> http_get ev listing_url = Inl TimeoutError
     \<or> (\<exists>r. http_get ev listing_url = Inr r \<and>
           (400 \<le> status r \<or> body_text r = Inl ClientError \<or> body_text r = Inl TimeoutError))"
  have "\<exists>e pre. fetch ev listing_url w = (Inl e, w\<lparr>logged := logged w @ pre\<rparr>)
      \<and> (e = ClientError \<or> e = TimeoutError) \<and> downloads_started pre = []"
  proof (cases "http_get ev listing_url")
    case (Inl e)
    with fails have "e = ClientError \<or> e = TimeoutError" by auto
    moreover have "fetch ev listing_url w =
        (Inl e, w\<lparr>logged := logged w @ [Debug_fetching listing_url]\<rparr>)"
      using Inl by (simp add: fetch_def Let_def logm_def)
    ultimately show ?thesis
      by (intro exI [of _ e] exI [of _ "[Debug_fetching listing_url]"]) simp
  next
    case (Inr r)
    let ?pre = "[Debug_fetching listing_url, Debug_got_response (status r)]"
    show ?thesis
    proof (cases "400 \<le> status r")
      case True
      with Inr have "fetch ev listing_url w = (Inl ClientError, w\<lparr>logged := logged w @ ?pre\<rparr>)"
        by (simp add: fetch_def Let_def logm_def)
      then show ?thesis
        by (intro exI [of _ ClientError] exI [of _ ?pre]) simp
    next
      case False
      with Inr fails have "body_text r = Inl ClientError \<or> body_text r = Inl TimeoutError"
        by auto
      then obtain e where e: "body_text r = Inl e" "e = ClientError \<or> e = TimeoutError"
        by auto
      with Inr False have "fetch ev listing_url w = (Inl e, w\<lparr>logged := logged w @ ?pre\<rparr>)"
        by (simp add: fetch_def Let_def logm_def)
      with e(2) show ?thesis
        by (intro exI [of _ e] exI [of _ ?pre]) simp
    qed
  qed
  then obtain e pre where f: "fetch ev listing_url w = (Inl e, w\<lparr>logged := logged w @ pre\<rparr>)"
    and e: "e = ClientError \<or> e = TimeoutError" and pre: "downloads_started pre = []"
    by blast
  from f e have sc: "scrape ev w = (Inr (), logm (Error_could_not_fetch e) (w\<lparr>logged := logged w @ pre\<rparr>))"
    by (auto simp: scrape_def Let_def)
  show "fst (scrape ev w) = Inr ()" unfolding sc by simp
  show "\<exists>pre e. logged (snd (scrape ev w)) = logged w @ pre @ [Error_could_not_fetch e]"
    unfolding sc by (simp add: logm_def)
  show "downloads_started (logged (snd (scrape ev w))) = downloads_started (logged w)"
    unfolding sc using pre by (simp add: logm_def downloads_started_append)
  show "files (snd (scrape ev w)) = files w" unfolding sc by (simp add: logm_def)
  show "progress_manager (snd (scrape ev w)) = progress_manager w"
    unfolding sc by (simp add: logm_def)
next
  assume ok: "http_get ev listing_url = Inr resp \<and> status resp < 400 \<and> body_text resp = Inr resp_text"
  let ?hrefs = "filter (\<lambda>href. endswith href ''.zip'') (find_all_href ev resp_text)"
  let ?four = "[Debug_fetching listing_url, Debug_got_response (status resp), Info_extracting,
           Info_got_zip_links (length ?hrefs)]"
  let ?w1 = "w\<lparr>logged := logged w @ [Debug_fetching listing_url, Debug_got_response (status resp)]\<rparr>"
  let ?w3 = "logm (Info_got_zip_links (length ?hrefs)) (logm Info_extracting ?w1)"
  have f: "fetch ev listing_url w = (Inr resp_text, ?w1)"
    using ok by (simp add: fetch_def Let_def logm_def)
  have l3: "logged ?w3 = logged w @ ?four" by (simp add: logm_def)
  have d3: "downloads_started (logged ?w3) = downloads_started (logged w)"
    by (simp add: logm_def downloads_started_append)
  have mv: "maxval (ProgressBar MAIN_BAR_WIDGETS (Some 1)) = Some 1"
    by (simp add: ProgressBar_def)
  show "\<exists>rest. logged (snd (scrape ev w)) = logged w @ ?four @ rest
        \<and> (\<forall>e. Error_could_not_fetch e \<notin> set rest)"
  proof (cases "filter (\<lambda>href. startswith href ''100MB'') ?hrefs")
    case Nil
    with f have "scrape ev w = (Inl IndexError, ?w3)"
      by (simp add: scrape_def Let_def)
    with l3 show ?thesis by simp
  next
    case (Cons t ts)
    with f have sc: "scrape ev w =
        install_main (ProgressBar MAIN_BAR_WIDGETS (Some 1))
          (download_file ev (listing_url @ t) ''/tmp/'') ?w3"
      by (simp add: scrape_def Let_def)
    from download_file_entries [of ev "listing_url @ t" "''/tmp/''" ?w3] obtain es where
      es: "logged (snd (download_file ev (listing_url @ t) ''/tmp/'' ?w3)) = logged ?w3 @ es"
        "\<forall>e. Error_could_not_fetch e \<notin> set es"
      by blast
    have "logged (snd (scrape ev w)) = logged w @ ?four @ es"
      unfolding sc install_main_world [OF mv] es(1) l3 by simp
    with es(2) show ?thesis by blast
  qed
  show "downloads_started (logged (snd (scrape ev w))) =
                downloads_started (logged w) @ [listing_url @ target_url]"
    if m: "filter (\<lambda>href. startswith href ''100MB'') ?hrefs = target_url # others"
  proof -
    from f m have sc: "scrape ev w =
        install_main (ProgressBar MAIN_BAR_WIDGETS (Some 1))
          (download_file ev (listing_url @ target_url) ''/tmp/'') ?w3"
      by (simp add: scrape_def Let_def)
    show ?thesis
      unfolding sc using install_main_started [OF mv, of ev "listing_url @ target_url" "''/tmp/''" ?w3] d3
      by simp
  qed
qed

theorem scrape_fetch_failure_witness:
  "fst (scrape
      (answering \<lparr>status = 404, headers = Map.empty, body_text = Inr ''not found'',
                  chunks = []\<rparr> [''100MB.zip''] Map.empty)
      (main_world Map.empty)) = Inr ()
   \<and> downloads_started (logged (snd (scrape
      (answering \<lparr>status = 404, headers = Map.empty, body_text = Inr ''not found'',
                  chunks = []\<rparr> [''100MB.zip''] Map.empty)
      (main_world Map.empty)))) = []
   \<and> files (snd (scrape
      (answering \<lparr>status = 404, headers = Map.empty, body_text = Inr ''not found'',
                  chunks = []\<rparr> [''100MB.zip''] Map.empty)
      (main_world Map.empty))) = Map.empty
   \<and> downloads_started (logged (snd (scrape
      (answering \<lparr>status = 304, headers = Map.empty, body_text = Inr ''listing'',
                  chunks = [Chunk ''abc'']\<rparr> [''100MB.zip''] Map.empty)
      (main_world Map.empty)))) = [''http://speedtest.tele2.net/100MB.zip'']"
proof -
  let ?ev = "answering \<lparr>status = 404, headers = Map.empty, body_text = Inr ''not found'',
                  chunks = []\<rparr> [''100MB.zip''] Map.empty"
  let ?resp = "\<lparr>status = 304, headers = Map.empty, body_text = Inr ''listing'',
                  chunks = [Chunk ''abc'']\<rparr>"
  let ?ev2 = "answering ?resp [''100MB.zip''] Map.empty"
  have h: "http_get ?ev listing_url = Inl ClientError \<or> http_get ?ev listing_url = Inl TimeoutError
     \<or> (\<exists>r. http_get ?ev listing_url = Inr r \<and>
           (400 \<le> status r \<or> body_text r = Inl ClientError \<or> body_text r = Inl TimeoutError))"
    by (simp add: answering_def)
  have h2: "http_get ?ev2 listing_url = Inr ?resp \<and> status ?resp < 400
      \<and> body_text ?resp = Inr ''listing''"
    by (simp add: answering_def)
  have g: "filter (\<lambda>href. startswith href ''100MB'')
            (filter (\<lambda>href. endswith href ''.zip'') (find_all_href ?ev2 ''listing'')) =
           ''100MB.zip'' # []"
    by code_simp
  note a = scrape_fetch_failure [of ?ev "main_world Map.empty", THEN conjunct1, rule_format, OF h]
  note b = scrape_fetch_failure [where ev = ?ev2 and w = "main_world Map.empty" and resp = ?resp
      and resp_text = "''listing''" and target_url = "''100MB.zip''" and others = "[]",
      THEN conjunct2, rule_format, OF h2, THEN conjunct2, rule_format, OF g]
  from a b show ?thesis by (simp add: main_world_def listing_url_def)
qed

text \<open>
  Claim C8 as stated fails for a status that is not 2xx but below 400, which
  \<^verbatim>\<open>raise_for_status\<close> lets pass: with status 300 the page is parsed and the download
  of its link is started.
\<close>

theorem scrape_status_300_counterexample:
  "downloads_started (logged (snd (scrape
      (answering \<lparr>status = 300, headers = Map.empty, body_text = Inr ''listing'',
                  chunks = [Chunk ''abc'']\<rparr> [''100MB.zip''] Map.empty)
      (main_world Map.empty)))) = [''http://speedtest.tele2.net/100MB.zip'']"
  by code_simp

section \<open>The URL of the download\<close>

text \<open>
  Claim C10. When the listing page is fetched and some link ends with \<open>.zip\<close> and starts
  with \<open>100MB\<close>, exactly one download is started, and its URL is the listing URL followed
  by the first such \<open>href\<close>, character for character. The listing URL ends with \<open>/\<close> and
  the \<open>href\<close> starts with \<open>100MB\<close>, so it is a relative reference; nothing is resolved
  or normalised, as the \<open>href\<close> \<open>100MB/../x.zip\<close> shows.
\<close>

theorem scrape_url_is_concatenation:
  assumes "fetch ev listing_url w = (Inr resp_text, w1)"
    and "filter (\<lambda>href. startswith href ''100MB'')
           (filter (\<lambda>href. endswith href ''.zip'') (find_all_href ev resp_text)) = target_url # others"
  shows "downloads_started (logged (snd (scrape ev w))) =
           downloads_started (logged w) @ [listing_url @ target_url]
         \<and> endswith listing_url ''/'' \<and> startswith target_url ''100MB''"
proof -
  let ?hrefs = "filter (\<lambda>href. endswith href ''.zip'') (find_all_href ev resp_text)"
  let ?w3 = "logm (Info_got_zip_links (length ?hrefs)) (logm Info_extracting w1)"
  have sc: "scrape ev w =
      install_main (ProgressBar MAIN_BAR_WIDGETS (Some 1))
        (download_file ev (listing_url @ target_url) ''/tmp/'') ?w3"
    using assms by (simp add: scrape_def Let_def)
  have "downloads_started (logged w1) = downloads_started (logged w)"
    using assms(1)
    by (auto simp: fetch_def Let_def logm_def downloads_started_append split: sum.splits if_splits)
  then have "downloads_started (logged ?w3) = downloads_started (logged w)"
    by (simp add: logm_def downloads_started_append)
  moreover have "maxval (ProgressBar MAIN_BAR_WIDGETS (Some 1)) = Some 1"
    by (simp add: ProgressBar_def)
  ultimately have "downloads_started (logged (snd (scrape ev w))) =
           downloads_started (logged w) @ [listing_url @ target_url]"
    by (simp add: sc install_main_started)
  moreover have "endswith listing_url ''/''"
    by (simp add: endswith_def listing_url_def)
  moreover have "target_url \<in> set (filter (\<lambda>href. startswith href ''100MB'') ?hrefs)"
    using assms(2) by simp
  then have "startswith target_url ''100MB''" by simp
  ultimately show ?thesis by simp
qed

theorem scrape_url_is_concatenation_witness:
  "downloads_started (logged (snd (scrape
      (answering \<lparr>status = 200, headers = Map.empty, body_text = Inr ''listing'',
                  chunks = [Chunk ''abc'']\<rparr> [''a.zip'', ''100MB/../x.zip'', ''100MB.zip''] Map.empty)
      (main_world Map.empty)))) = [''http://speedtest.tele2.net/100MB/../x.zip'']"
proof -
  let ?ev = "answering \<lparr>status = 200, headers = Map.empty, body_text = Inr ''listing'',
                  chunks = [Chunk ''abc'']\<rparr> [''a.zip'', ''100MB/../x.zip'', ''100MB.zip''] Map.empty"
  have f: "fst (fetch ?ev listing_url (main_world Map.empty)) = Inr ''listing''"
    by code_simp
  have g: "filter (\<lambda>href. startswith href ''100MB'')
           (filter (\<lambda>href. endswith href ''.zip'') (find_all_href ?ev ''listing'')) =
           ''100MB/../x.zip'' # [''100MB.zip'']"
    by code_simp
  have f': "fetch ?ev listing_url (main_world Map.empty) =
      (Inr ''listing'', snd (fetch ?ev listing_url (main_world Map.empty)))"
    using f by (metis prod.collapse)
  from scrape_url_is_concatenation [OF f' g]
  show ?thesis by (simp add: main_world_def listing_url_def)
qed

section \<open>A Content-Length of zero\<close>




















end
